theory Spec2Isabelle
  imports Main
begin

section \<open>The CSS selector builder of 05-objects-tasks.js\<close>

text \<open>
  The class \<open>Check\<close> holds one selector in progress. Its methods mutate the
  object and either return \<open>this\<close> or throw a JavaScript \<open>Error\<close>. The
  model passes the object's fields explicitly: a method takes the state of
  the receiver and yields an outcome, which says whether the call returned
  or threw and, in both cases, in which state it left the receiver.
  Selector values are strings; the ranks pushed onto \<open>order\<close> are the
  numbers 0 to 5.
\<close>

subsection \<open>Data\<close>

record Check =
  test :: string
  id1 :: bool
  element1 :: bool
  pseudoElement1 :: bool
  order :: "nat list"

datatype error = Error string

datatype 'a outcome = Returned 'a Check | Threw error Check

text \<open>The two messages of the \<open>throw new Error(...)\<close> statements.\<close>

definition duplicateError :: error where
  "duplicateError =
     Error ''Element, id and pseudo-element should not occur more then one time inside the selector''"

definition orderError :: error where
  "orderError =
     Error ''Selector parts should be arranged in the following order: element, id, class, attribute, pseudo-class, pseudo-element''"

text \<open>\<open>constructor(val = '')\<close>: a missing argument selects the default.\<close>

definition Check_constructor :: "string option \<Rightarrow> Check" where
  "Check_constructor val =
     \<lparr>test = (case val of None \<Rightarrow> [] | Some v \<Rightarrow> v),
      id1 = False, element1 = False, pseudoElement1 = False, order = []\<rparr>"

subsection \<open>checkOrder\<close>

text \<open>
  \<open>this.order[i + 1]\<close> is \<open>undefined\<close> past the end of the array, and
  \<open>el > undefined\<close> is false, so the last element never throws.
\<close>

definition js_index :: "nat list \<Rightarrow> nat \<Rightarrow> nat option" where
  "js_index arr i = (if i < length arr then Some (arr ! i) else None)"

definition js_gt :: "nat \<Rightarrow> nat option \<Rightarrow> bool" where
  "js_gt el y = (case y of None \<Rightarrow> False | Some n \<Rightarrow> el > n)"

text \<open>
  The \<open>forEach\<close> callback, applied to the elements that remain, the index
  of the first of them, and the whole array.
\<close>

fun checkOrder_forEach :: "nat list \<Rightarrow> nat \<Rightarrow> nat list \<Rightarrow> error option" where
  "checkOrder_forEach [] i arr = None"
| "checkOrder_forEach (el # els) i arr =
     (if js_gt el (js_index arr (i + 1)) then Some orderError
      else checkOrder_forEach els (i + 1) arr)"

definition checkOrder :: "Check \<Rightarrow> unit outcome" where
  "checkOrder this =
     (case checkOrder_forEach (order this) 0 (order this) of
        Some e \<Rightarrow> Threw e this
      | None \<Rightarrow> Returned () this)"

subsection \<open>The fragment methods\<close>

text \<open>
  Each method appends its text, sets its flag if it has one, pushes its
  rank and calls \<open>checkOrder\<close>; it returns \<open>this\<close> when that call returns.
\<close>

definition return_this :: "unit outcome \<Rightarrow> unit outcome" where
  "return_this r = (case r of Threw e s \<Rightarrow> Threw e s | Returned u s \<Rightarrow> Returned () s)"

definition Check_element :: "string \<Rightarrow> Check \<Rightarrow> unit outcome" where
  "Check_element val this =
     (if element1 this then Threw duplicateError this
      else return_this (checkOrder
        (this\<lparr>test := test this @ val, element1 := True, order := order this @ [0]\<rparr>)))"

definition Check_id :: "string \<Rightarrow> Check \<Rightarrow> unit outcome" where
  "Check_id val this =
     (if id1 this then Threw duplicateError this
      else return_this (checkOrder
        (this\<lparr>test := test this @ ''#'' @ val, id1 := True, order := order this @ [1]\<rparr>)))"

definition Check_class :: "string \<Rightarrow> Check \<Rightarrow> unit outcome" where
  "Check_class val this =
     return_this (checkOrder
       (this\<lparr>test := test this @ ''.'' @ val, order := order this @ [2]\<rparr>))"

definition Check_attr :: "string \<Rightarrow> Check \<Rightarrow> unit outcome" where
  "Check_attr val this =
     return_this (checkOrder
       (this\<lparr>test := test this @ ''['' @ val @ '']'', order := order this @ [3]\<rparr>))"

definition Check_pseudoClass :: "string \<Rightarrow> Check \<Rightarrow> unit outcome" where
  "Check_pseudoClass val this =
     return_this (checkOrder
       (this\<lparr>test := test this @ '':'' @ val, order := order this @ [4]\<rparr>))"

definition Check_pseudoElement :: "string \<Rightarrow> Check \<Rightarrow> unit outcome" where
  "Check_pseudoElement val this =
     (if pseudoElement1 this then Threw duplicateError this
      else return_this (checkOrder
        (this\<lparr>test := test this @ ''::'' @ val, pseudoElement1 := True,
              order := order this @ [5]\<rparr>)))"

definition stringify :: "Check \<Rightarrow> string outcome" where
  "stringify this = Returned (test this) this"

subsection \<open>The facade cssSelectorBuilder\<close>

text \<open>
  The facade has no state. An entry point returns the new object, or throws
  what the method threw; the object of a call that threw is unreachable.
\<close>

definition new_and_call :: "(Check \<Rightarrow> unit outcome) \<Rightarrow> error + Check" where
  "new_and_call m =
     (case m (Check_constructor None) of Threw e s \<Rightarrow> Inl e | Returned u s \<Rightarrow> Inr s)"

definition cssSelectorBuilder_element :: "string \<Rightarrow> error + Check" where
  "cssSelectorBuilder_element val = new_and_call (Check_element val)"

definition cssSelectorBuilder_id :: "string \<Rightarrow> error + Check" where
  "cssSelectorBuilder_id val = new_and_call (Check_id val)"

definition cssSelectorBuilder_class :: "string \<Rightarrow> error + Check" where
  "cssSelectorBuilder_class val = new_and_call (Check_class val)"

definition cssSelectorBuilder_attr :: "string \<Rightarrow> error + Check" where
  "cssSelectorBuilder_attr val = new_and_call (Check_attr val)"

definition cssSelectorBuilder_pseudoClass :: "string \<Rightarrow> error + Check" where
  "cssSelectorBuilder_pseudoClass val = new_and_call (Check_pseudoClass val)"

definition cssSelectorBuilder_pseudoElement :: "string \<Rightarrow> error + Check" where
  "cssSelectorBuilder_pseudoElement val = new_and_call (Check_pseudoElement val)"

text \<open>
  \<open>combine\<close> evaluates the template literal from left to right, calling
  \<open>stringify\<close> on the first selector and then on the second, and passes the
  text to the constructor.
\<close>

definition cssSelectorBuilder_combine :: "Check \<Rightarrow> string \<Rightarrow> Check \<Rightarrow> error + Check" where
  "cssSelectorBuilder_combine selector1 combinator selector2 =
     (case stringify selector1 of
        Threw e s \<Rightarrow> Inl e
      | Returned a s \<Rightarrow>
          (case stringify selector2 of
             Threw e s \<Rightarrow> Inl e
           | Returned b s \<Rightarrow>
               Inr (Check_constructor (Some (a @ '' '' @ combinator @ '' '' @ b)))))"

subsection \<open>Sequences of calls\<close>

datatype call =
    Element string
  | Id string
  | Class string
  | Attr string
  | PseudoClass string
  | PseudoElement string

fun invoke :: "call \<Rightarrow> Check \<Rightarrow> unit outcome" where
  "invoke (Element v) this = Check_element v this"
| "invoke (Id v) this = Check_id v this"
| "invoke (Class v) this = Check_class v this"
| "invoke (Attr v) this = Check_attr v this"
| "invoke (PseudoClass v) this = Check_pseudoClass v this"
| "invoke (PseudoElement v) this = Check_pseudoElement v this"

text \<open>
  A chain \<open>b.m1(v1).m2(v2)...\<close>: the first call that throws ends it, and the
  exception leaves the chain.
\<close>

fun chain :: "call list \<Rightarrow> Check \<Rightarrow> unit outcome" where
  "chain [] this = Returned () this"
| "chain (c # cs) this =
     (case invoke c this of
        Threw e s \<Rightarrow> Threw e s
      | Returned u s \<Rightarrow> chain cs s)"

text \<open>
  An expression \<open>builder.m0(v0).m1(v1)...\<close>: the facade makes the object and
  applies the first call, and the other calls are chained on what it returns.
\<close>

fun facade :: "call \<Rightarrow> error + Check" where
  "facade (Element v) = cssSelectorBuilder_element v"
| "facade (Id v) = cssSelectorBuilder_id v"
| "facade (Class v) = cssSelectorBuilder_class v"
| "facade (Attr v) = cssSelectorBuilder_attr v"
| "facade (PseudoClass v) = cssSelectorBuilder_pseudoClass v"
| "facade (PseudoElement v) = cssSelectorBuilder_pseudoElement v"

definition build :: "call \<Rightarrow> call list \<Rightarrow> error + Check" where
  "build c cs =
     (case facade c of
        Inl e \<Rightarrow> Inl e
      | Inr s \<Rightarrow> (case chain cs s of Threw e s' \<Rightarrow> Inl e | Returned u s' \<Rightarrow> Inr s'))"

text \<open>
  A history of calls on one object by a caller who catches every exception
  and goes on: the outcome of each call, and the state after all of them.
\<close>

fun after :: "'a outcome \<Rightarrow> Check" where
  "after (Returned u s) = s"
| "after (Threw e s) = s"

fun history :: "call list \<Rightarrow> Check \<Rightarrow> unit outcome list" where
  "history [] this = []"
| "history (c # cs) this = invoke c this # history cs (after (invoke c this))"

fun perform :: "call list \<Rightarrow> Check \<Rightarrow> Check" where
  "perform [] this = this"
| "perform (c # cs) this = perform cs (after (invoke c this))"

subsection \<open>The vocabulary of the specification\<close>

text \<open>The rank of a fragment kind and the text a fragment is rendered as.\<close>

fun rank :: "call \<Rightarrow> nat" where
  "rank (Element v) = 0"
| "rank (Id v) = 1"
| "rank (Class v) = 2"
| "rank (Attr v) = 3"
| "rank (PseudoClass v) = 4"
| "rank (PseudoElement v) = 5"

fun rendered :: "call \<Rightarrow> string" where
  "rendered (Element v) = v"
| "rendered (Id v) = ''#'' @ v"
| "rendered (Class v) = ''.'' @ v"
| "rendered (Attr v) = ''['' @ v @ '']''"
| "rendered (PseudoClass v) = '':'' @ v"
| "rendered (PseudoElement v) = ''::'' @ v"

fun is_Element :: "call \<Rightarrow> bool" where
  "is_Element (Element v) = True"
| "is_Element c = False"

fun is_Id :: "call \<Rightarrow> bool" where
  "is_Id (Id v) = True"
| "is_Id c = False"

fun is_PseudoElement :: "call \<Rightarrow> bool" where
  "is_PseudoElement (PseudoElement v) = True"
| "is_PseudoElement c = False"

text \<open>The flag that the method of a call tests before anything else.\<close>

fun already_added :: "call \<Rightarrow> Check \<Rightarrow> bool" where
  "already_added (Element v) this = element1 this"
| "already_added (Id v) this = id1 this"
| "already_added (PseudoElement v) this = pseudoElement1 this"
| "already_added c this = False"

text \<open>What a call does to the fields when its flag is not set.\<close>

fun appended :: "call \<Rightarrow> Check \<Rightarrow> Check" where
  "appended (Element v) this =
     this\<lparr>test := test this @ v, element1 := True, order := order this @ [0]\<rparr>"
| "appended (Id v) this =
     this\<lparr>test := test this @ ''#'' @ v, id1 := True, order := order this @ [1]\<rparr>"
| "appended (Class v) this =
     this\<lparr>test := test this @ ''.'' @ v, order := order this @ [2]\<rparr>"
| "appended (Attr v) this =
     this\<lparr>test := test this @ ''['' @ v @ '']'', order := order this @ [3]\<rparr>"
| "appended (PseudoClass v) this =
     this\<lparr>test := test this @ '':'' @ v, order := order this @ [4]\<rparr>"
| "appended (PseudoElement v) this =
     this\<lparr>test := test this @ ''::'' @ v, pseudoElement1 := True,
          order := order this @ [5]\<rparr>"

definition at_most_once :: "call list \<Rightarrow> bool" where
  "at_most_once cs =
     (length (filter is_Element cs) \<le> 1 \<and> length (filter is_Id cs) \<le> 1 \<and>
      length (filter is_PseudoElement cs) \<le> 1)"

definition rank_ordered :: "call list \<Rightarrow> bool" where
  "rank_ordered cs = sorted (map rank cs)"

text \<open>Whether a call of a history threw the out-of-order error.\<close>

fun raised_order_error :: "unit outcome \<Rightarrow> bool" where
  "raised_order_error (Threw e s) = (e = orderError)"
| "raised_order_error (Returned u s) = False"

text \<open>\<open>stringify\<close> called a number of times in a row on the same object.\<close>

fun stringify_times :: "nat \<Rightarrow> Check \<Rightarrow> string outcome list" where
  "stringify_times 0 this = []"
| "stringify_times (Suc n) this =
     stringify this # stringify_times n (after (stringify this))"

text \<open>
  The nested expression of the task's documentation,
  \<open>combine(combine(A, '+', B), '~', combine(C, ' ', D)).stringify()\<close>, with
  its arguments evaluated from left to right.
\<close>

definition combine_nested :: "Check \<Rightarrow> Check \<Rightarrow> Check \<Rightarrow> Check \<Rightarrow> error + string" where
  "combine_nested A B C D =
     (case cssSelectorBuilder_combine A ''+'' B of
        Inl e \<Rightarrow> Inl e
      | Inr l \<Rightarrow>
          (case cssSelectorBuilder_combine C '' '' D of
             Inl e \<Rightarrow> Inl e
           | Inr r \<Rightarrow>
               (case cssSelectorBuilder_combine l ''~'' r of
                  Inl e \<Rightarrow> Inl e
                | Inr t \<Rightarrow>
                    (case stringify t of
                       Threw e s \<Rightarrow> Inl e
                     | Returned str s \<Rightarrow> Inr str))))"


section \<open>Properties\<close>

subsection \<open>checkOrder throws exactly on a decreasing pair\<close>

lemma duplicate_neq_order: "duplicateError \<noteq> orderError"
  by (simp add: duplicateError_def orderError_def)

lemma checkOrder_forEach_error:
  "checkOrder_forEach els i arr = Some e \<Longrightarrow> e = orderError"
  by (induction els arbitrary: i) (auto split: if_splits)

lemma checkOrder_forEach_None:
  "checkOrder_forEach (drop i arr) i arr = None \<longleftrightarrow>
     (\<forall>j. i \<le> j \<and> Suc j < length arr \<longrightarrow> arr ! j \<le> arr ! Suc j)"
proof (induction "length arr - i" arbitrary: i)
  case 0
  then show ?case by simp
next
  case (Suc n)
  then have i: "i < length arr" by simp
  then have d: "drop i arr = arr ! i # drop (Suc i) arr"
    by (simp add: Cons_nth_drop_Suc)
  have n: "n = length arr - Suc i" using Suc.hyps(2) by simp
  have step: "(\<forall>j. i \<le> j \<and> Suc j < length arr \<longrightarrow> arr ! j \<le> arr ! Suc j) \<longleftrightarrow>
      \<not> js_gt (arr ! i) (js_index arr (Suc i)) \<and>
      (\<forall>j. Suc i \<le> j \<and> Suc j < length arr \<longrightarrow> arr ! j \<le> arr ! Suc j)"
    (is "?L \<longleftrightarrow> ?H \<and> ?R")
  proof
    assume l: ?L
    have "?H" using l by (auto simp: js_gt_def js_index_def)
    moreover have "?R" using l by simp
    ultimately show "?H \<and> ?R" ..
  next
    assume hr: "?H \<and> ?R"
    show ?L
    proof (intro allI impI)
      fix j assume j: "i \<le> j \<and> Suc j < length arr"
      show "arr ! j \<le> arr ! Suc j"
      proof (cases "j = i")
        case True
        with hr j show ?thesis by (auto simp: js_gt_def js_index_def)
      next
        case False
        with hr j show ?thesis by simp
      qed
    qed
  qed
  show ?case
    using Suc.hyps(1)[OF n] by (simp add: d step)
qed

lemma checkOrder_forEach_sorted:
  "checkOrder_forEach arr 0 arr = None \<longleftrightarrow> sorted arr"
  using checkOrder_forEach_None[of 0 arr] by (simp add: sorted_iff_nth_Suc)

lemma checkOrder_sorted:
  "sorted (order s) \<Longrightarrow> checkOrder s = Returned () s"
proof -
  assume "sorted (order s)"
  then have "checkOrder_forEach (order s) 0 (order s) = None"
    by (simp add: checkOrder_forEach_sorted)
  then show ?thesis by (simp add: checkOrder_def)
qed

lemma checkOrder_unsorted:
  "\<not> sorted (order s) \<Longrightarrow> checkOrder s = Threw orderError s"
proof -
  assume "\<not> sorted (order s)"
  then obtain e where e: "checkOrder_forEach (order s) 0 (order s) = Some e"
    using checkOrder_forEach_sorted[of "order s"] by (cases "checkOrder_forEach (order s) 0 (order s)") auto
  then have "e = orderError" by (rule checkOrder_forEach_error)
  with e show ?thesis by (simp add: checkOrder_def)
qed

lemma checkOrder_eq:
  "checkOrder s = (if sorted (order s) then Returned () s else Threw orderError s)"
  by (simp add: checkOrder_sorted checkOrder_unsorted)

text \<open>Every call tests its flag and otherwise appends and checks the order.\<close>

lemma invoke_eq:
  "invoke c s =
     (if already_added c s then Threw duplicateError s
      else if sorted (order (appended c s)) then Returned () (appended c s)
      else Threw orderError (appended c s))"
  by (cases c)
     (simp_all add: Check_element_def Check_id_def Check_class_def Check_attr_def
        Check_pseudoClass_def Check_pseudoElement_def return_this_def checkOrder_eq)

lemma order_appended: "order (appended c s) = order s @ [rank c]"
  by (cases c) simp_all

lemma test_appended: "test (appended c s) = test s @ rendered c"
  by (cases c) simp_all

subsection \<open>Chains that respect order and uniqueness\<close>

lemma already_added_appended:
  "already_added c' (appended c s) \<longleftrightarrow>
     already_added c' s \<or> (is_Element c \<and> is_Element c') \<or> (is_Id c \<and> is_Id c') \<or>
     (is_PseudoElement c \<and> is_PseudoElement c')"
  by (cases c; cases c') simp_all

lemma filter_le_one_Cons:
  "length (filter P (c # cs)) \<le> 1 \<Longrightarrow>
     length (filter P cs) \<le> 1 \<and> (P c \<longrightarrow> (\<forall>c'\<in>set cs. \<not> P c'))"
  by (cases "P c") (auto simp: filter_empty_conv)

lemma at_most_once_Cons:
  assumes "at_most_once (c # cs)"
  shows "at_most_once cs"
    and "is_Element c \<Longrightarrow> c' \<in> set cs \<Longrightarrow> \<not> is_Element c'"
    and "is_Id c \<Longrightarrow> c' \<in> set cs \<Longrightarrow> \<not> is_Id c'"
    and "is_PseudoElement c \<Longrightarrow> c' \<in> set cs \<Longrightarrow> \<not> is_PseudoElement c'"
  using assms filter_le_one_Cons[of is_Element c cs] filter_le_one_Cons[of is_Id c cs]
    filter_le_one_Cons[of is_PseudoElement c cs]
  unfolding at_most_once_def by blast+

lemma test_fold_appended:
  "test (fold appended cs s) = test s @ concat (map rendered cs)"
  by (induction cs arbitrary: s) (simp_all add: test_appended)

lemma order_fold_appended:
  "order (fold appended cs s) = order s @ map rank cs"
  by (induction cs arbitrary: s) (simp_all add: order_appended)

lemma chain_valid:
  "sorted (order s @ map rank cs) \<Longrightarrow> at_most_once cs \<Longrightarrow>
   (\<And>c. c \<in> set cs \<Longrightarrow> \<not> already_added c s) \<Longrightarrow>
   chain cs s = Returned () (fold appended cs s)"
proof (induction cs arbitrary: s)
  case Nil
  then show ?case by simp
next
  case (Cons c cs)
  have fresh: "\<not> already_added c s" using Cons.prems(3) by simp
  have "sorted (order s @ [rank c])"
    using Cons.prems(1) by (simp add: sorted_append)
  then have step: "invoke c s = Returned () (appended c s)"
    using fresh by (simp add: invoke_eq order_appended)
  have 1: "sorted (order (appended c s) @ map rank cs)"
    using Cons.prems(1) by (simp add: order_appended)
  have 2: "at_most_once cs"
    using Cons.prems(2) by (rule at_most_once_Cons(1))
  have 3: "\<not> already_added c' (appended c s)" if "c' \<in> set cs" for c'
    using that Cons.prems(3)[of c'] at_most_once_Cons(2-4)[OF Cons.prems(2), of c']
    by (auto simp: already_added_appended)
  show ?case
    using Cons.IH[OF 1 2 3] by (simp add: step)
qed

lemma already_added_constructor: "\<not> already_added c (Check_constructor val)"
  by (cases c) (simp_all add: Check_constructor_def)

lemma build_chain:
  "build c cs =
     (case chain (c # cs) (Check_constructor None) of
        Threw e s \<Rightarrow> Inl e
      | Returned u s \<Rightarrow> Inr s)"
  by (cases c)
     (simp_all add: build_def new_and_call_def cssSelectorBuilder_element_def
        cssSelectorBuilder_id_def cssSelectorBuilder_class_def cssSelectorBuilder_attr_def
        cssSelectorBuilder_pseudoClass_def cssSelectorBuilder_pseudoElement_def
        split: outcome.splits)

text \<open>
  C1: a sequence of fragment calls on a new builder that is ordered by rank
  and adds at most one element, one id and one pseudo-element returns from
  every call, and \<open>stringify\<close> then returns the rendered fragments
  concatenated in the order of the calls, and nothing else.
\<close>

theorem stringify_valid_chain:
  assumes "rank_ordered cs" and "at_most_once cs"
  shows "\<exists>s. chain cs (Check_constructor None) = Returned () s \<and>
             stringify s = Returned (concat (map rendered cs)) s"
proof -
  let ?s0 = "Check_constructor None"
  have "sorted (order ?s0 @ map rank cs)"
    using assms(1) by (simp add: rank_ordered_def Check_constructor_def)
  then have "chain cs ?s0 = Returned () (fold appended cs ?s0)"
    using assms(2) by (rule chain_valid) (rule already_added_constructor)
  moreover have "test (fold appended cs ?s0) = concat (map rendered cs)"
    by (simp add: test_fold_appended Check_constructor_def)
  ultimately show ?thesis
    by (simp add: stringify_def)
qed

theorem stringify_valid_chain_witness:
  "rank_ordered [Id ''main'', Class ''container'', Class ''editable''] \<and>
   at_most_once [Id ''main'', Class ''container'', Class ''editable''] \<and>
   (\<exists>s. chain [Id ''main'', Class ''container'', Class ''editable'']
          (Check_constructor None) = Returned () s \<and>
        stringify s = Returned ''#main.container.editable'' s)"
proof -
  have r: "rank_ordered [Id ''main'', Class ''container'', Class ''editable'']"
    by (simp add: rank_ordered_def)
  have u: "at_most_once [Id ''main'', Class ''container'', Class ''editable'']"
    by (simp add: at_most_once_def)
  show ?thesis
    using r u stringify_valid_chain[OF r u] by simp
qed

subsection \<open>Duplicates\<close>

lemma flags_after_invoke:
  "element1 s \<or> is_Element c \<Longrightarrow> element1 (after (invoke c s))"
  "id1 s \<or> is_Id c \<Longrightarrow> id1 (after (invoke c s))"
  "pseudoElement1 s \<or> is_PseudoElement c \<Longrightarrow> pseudoElement1 (after (invoke c s))"
  by (cases c; simp add: invoke_eq)+

lemma flags_after_perform:
  "element1 s \<or> list_ex is_Element cs \<Longrightarrow> element1 (perform cs s)"
  "id1 s \<or> list_ex is_Id cs \<Longrightarrow> id1 (perform cs s)"
  "pseudoElement1 s \<or> list_ex is_PseudoElement cs \<Longrightarrow> pseudoElement1 (perform cs s)"
proof (induction cs arbitrary: s)
  case Nil
  { case 1 then show ?case by simp }
  { case 2 then show ?case by simp }
  { case 3 then show ?case by simp }
next
  case (Cons c cs)
  { case 1 then show ?case
      using Cons.IH(1)[of "after (invoke c s)"] flags_after_invoke(1)[of s c] by auto }
  { case 2 then show ?case
      using Cons.IH(2)[of "after (invoke c s)"] flags_after_invoke(2)[of s c] by auto }
  { case 3 then show ?case
      using Cons.IH(3)[of "after (invoke c s)"] flags_after_invoke(3)[of s c] by auto }
qed

lemma chain_perform: "chain cs s = Returned () s' \<Longrightarrow> perform cs s = s'"
  by (induction cs arbitrary: s) (auto split: outcome.splits)

text \<open>
  C2: on any builder and after any history of fragment calls, whatever
  their outcomes, \<open>element\<close> throws the duplicate error if the history has a
  call of \<open>element\<close>, \<open>id\<close> throws it if the history has a call of \<open>id\<close>, and
  \<open>pseudoElement\<close> throws it if the history has a call of \<open>pseudoElement\<close>,
  however many other calls came in between. The message is the one that
  says that element, id and pseudo-element should not occur more than once.
\<close>

theorem duplicate_after_history:
  "(list_ex is_Element cs \<longrightarrow>
      Check_element v (perform cs s) = Threw duplicateError (perform cs s)) \<and>
   (list_ex is_Id cs \<longrightarrow>
      Check_id v (perform cs s) = Threw duplicateError (perform cs s)) \<and>
   (list_ex is_PseudoElement cs \<longrightarrow>
      Check_pseudoElement v (perform cs s) = Threw duplicateError (perform cs s)) \<and>
   duplicateError =
     Error ''Element, id and pseudo-element should not occur more then one time inside the selector''"
  using flags_after_perform[of s cs]
  by (simp add: Check_element_def Check_id_def Check_pseudoElement_def duplicateError_def)

theorem duplicate_after_history_witness:
  "list_ex is_Element [Element ''div'', Id ''main'', Class ''a'', PseudoElement ''after''] \<and>
   list_ex is_Id [Element ''div'', Id ''main'', Class ''a'', PseudoElement ''after''] \<and>
   list_ex is_PseudoElement [Element ''div'', Id ''main'', Class ''a'', PseudoElement ''after''] \<and>
   Check_element ''p''
     (perform [Element ''div'', Id ''main'', Class ''a'', PseudoElement ''after'']
        (Check_constructor None)) =
   Threw duplicateError
     (perform [Element ''div'', Id ''main'', Class ''a'', PseudoElement ''after'']
        (Check_constructor None)) \<and>
   Check_id ''p''
     (perform [Element ''div'', Id ''main'', Class ''a'', PseudoElement ''after'']
        (Check_constructor None)) =
   Threw duplicateError
     (perform [Element ''div'', Id ''main'', Class ''a'', PseudoElement ''after'']
        (Check_constructor None)) \<and>
   Check_pseudoElement ''p''
     (perform [Element ''div'', Id ''main'', Class ''a'', PseudoElement ''after'']
        (Check_constructor None)) =
   Threw duplicateError
     (perform [Element ''div'', Id ''main'', Class ''a'', PseudoElement ''after'']
        (Check_constructor None))"
  using duplicate_after_history
    [of "[Element ''div'', Id ''main'', Class ''a'', PseudoElement ''after'']" "''p''"
        "Check_constructor None"]
  by simp

text \<open>
  C4, as the code has it: a call of \<open>element\<close>, \<open>id\<close> or \<open>pseudoElement\<close>
  whose flag is already set throws the duplicate error before it appends
  anything. The failed call leaves every field of the builder as it was, the
  rendered string included.
\<close>

theorem duplicate_leaves_state:
  "(element1 s \<longrightarrow> Check_element v s = Threw duplicateError s) \<and>
   (id1 s \<longrightarrow> Check_id v s = Threw duplicateError s) \<and>
   (pseudoElement1 s \<longrightarrow> Check_pseudoElement v s = Threw duplicateError s) \<and>
   (already_added c s \<longrightarrow> test (after (invoke c s)) = test s)"
  by (simp add: Check_element_def Check_id_def Check_pseudoElement_def invoke_eq)

theorem duplicate_leaves_state_witness:
  "element1 \<lparr>test = ''a#b::c'', id1 = True, element1 = True, pseudoElement1 = True,
             order = [0, 1, 5]\<rparr> \<and>
   Check_element ''d''
     \<lparr>test = ''a#b::c'', id1 = True, element1 = True, pseudoElement1 = True,
      order = [0, 1, 5]\<rparr> =
   Threw duplicateError
     \<lparr>test = ''a#b::c'', id1 = True, element1 = True, pseudoElement1 = True,
      order = [0, 1, 5]\<rparr> \<and>
   Check_id ''d''
     \<lparr>test = ''a#b::c'', id1 = True, element1 = True, pseudoElement1 = True,
      order = [0, 1, 5]\<rparr> =
   Threw duplicateError
     \<lparr>test = ''a#b::c'', id1 = True, element1 = True, pseudoElement1 = True,
      order = [0, 1, 5]\<rparr> \<and>
   Check_pseudoElement ''d''
     \<lparr>test = ''a#b::c'', id1 = True, element1 = True, pseudoElement1 = True,
      order = [0, 1, 5]\<rparr> =
   Threw duplicateError
     \<lparr>test = ''a#b::c'', id1 = True, element1 = True, pseudoElement1 = True,
      order = [0, 1, 5]\<rparr> \<and>
   test (after (invoke (Id ''d'')
     \<lparr>test = ''a#b::c'', id1 = True, element1 = True, pseudoElement1 = True,
      order = [0, 1, 5]\<rparr>)) = ''a#b::c''"
  using duplicate_leaves_state
    [of "\<lparr>test = ''a#b::c'', id1 = True, element1 = True, pseudoElement1 = True,
          order = [0, 1, 5]\<rparr>" "''d''" "Id ''d''"]
  by simp

text \<open>
  C4, as the claim has it, fails: after \<open>element('a')\<close> on a new builder, the
  call \<open>element('b')\<close> throws the duplicate error and the rendered string is
  still \<open>a\<close>, not \<open>ab\<close>.
\<close>

theorem duplicate_appends_counterexample:
  "chain [Element ''a''] (Check_constructor None) =
     Returned () \<lparr>test = ''a'', id1 = False, element1 = True, pseudoElement1 = False,
                  order = [0]\<rparr> \<and>
   Check_element ''b''
     \<lparr>test = ''a'', id1 = False, element1 = True, pseudoElement1 = False, order = [0]\<rparr> =
   Threw duplicateError
     \<lparr>test = ''a'', id1 = False, element1 = True, pseudoElement1 = False, order = [0]\<rparr> \<and>
   test (after (Check_element ''b''
     \<lparr>test = ''a'', id1 = False, element1 = True, pseudoElement1 = False, order = [0]\<rparr>)) \<noteq>
   test \<lparr>test = ''a'', id1 = False, element1 = True, pseudoElement1 = False, order = [0]\<rparr>
     @ ''b''"
  by (simp add: Check_element_def Check_constructor_def return_this_def checkOrder_def
      js_gt_def js_index_def)

subsection \<open>Order\<close>

lemma sorted_le_last:
  "sorted xs \<Longrightarrow> x \<in> set xs \<Longrightarrow> x \<le> (last xs :: nat)"
  by (induction xs) auto

lemma sorted_snoc_last:
  "sorted (xs @ [r :: nat]) \<longleftrightarrow> sorted xs \<and> (xs = [] \<or> last xs \<le> r)"
proof (cases "xs = []")
  case True
  then show ?thesis by simp
next
  case False
  then have l: "last xs \<in> set xs" by simp
  show ?thesis
  proof
    assume "sorted (xs @ [r])"
    then show "sorted xs \<and> (xs = [] \<or> last xs \<le> r)"
      using l by (auto simp: sorted_append)
  next
    assume a: "sorted xs \<and> (xs = [] \<or> last xs \<le> r)"
    then have "\<forall>x\<in>set xs. x \<le> last xs"
      using sorted_le_last by blast
    with a False show "sorted (xs @ [r])"
      by (auto simp: sorted_append intro: order_trans)
  qed
qed

text \<open>
  C3, as the code has it. A call whose rank is below the last recorded rank
  throws the out-of-order error, with the message quoted in the claim,
  unless it is an \<open>element\<close> or \<open>id\<close> call on a builder that already has
  one: the flag is tested first and the call throws the duplicate error. On
  a builder whose recorded ranks are non-decreasing, a call whose rank is at
  least the last recorded rank does not throw the out-of-order error.
\<close>

theorem order_error_on_lower_rank:
  "(order s \<noteq> [] \<and> rank c < last (order s) \<and> \<not> already_added c s \<longrightarrow>
      invoke c s =
      Threw (Error ''Selector parts should be arranged in the following order: element, id, class, attribute, pseudo-class, pseudo-element'')
        (appended c s)) \<and>
   (already_added c s \<longrightarrow> invoke c s = Threw duplicateError s) \<and>
   (sorted (order s) \<and> (order s = [] \<or> last (order s) \<le> rank c) \<longrightarrow>
      (\<forall>s'. invoke c s \<noteq>
        Threw (Error ''Selector parts should be arranged in the following order: element, id, class, attribute, pseudo-class, pseudo-element'') s'))"
proof -
  have o: "orderError = Error ''Selector parts should be arranged in the following order: element, id, class, attribute, pseudo-class, pseudo-element''"
    by (simp add: orderError_def)
  have 1: "invoke c s = Threw orderError (appended c s)"
    if "order s \<noteq> []" "rank c < last (order s)" "\<not> already_added c s"
  proof -
    have "\<not> sorted (order s @ [rank c])"
      using that(1,2) by (simp add: sorted_snoc_last)
    then show ?thesis using that(3) by (simp add: invoke_eq order_appended)
  qed
  have 2: "invoke c s = Threw duplicateError s" if "already_added c s"
    using that by (simp add: invoke_eq)
  have 3: "invoke c s \<noteq> Threw orderError s'"
    if "sorted (order s)" "order s = [] \<or> last (order s) \<le> rank c" for s'
  proof -
    have "sorted (order s @ [rank c])"
      using that by (simp add: sorted_snoc_last)
    then show ?thesis
      using duplicate_neq_order by (simp add: invoke_eq order_appended)
  qed
  show ?thesis
    using 1 2 3 unfolding o[symmetric] by blast
qed

theorem order_error_on_lower_rank_witness:
  "(order \<lparr>test = ''[x]'', id1 = False, element1 = False, pseudoElement1 = False,
            order = [3]\<rparr> \<noteq> [] \<and>
    rank (Class ''y'') <
      last (order \<lparr>test = ''[x]'', id1 = False, element1 = False, pseudoElement1 = False,
                   order = [3]\<rparr>) \<and>
    \<not> already_added (Class ''y'')
      \<lparr>test = ''[x]'', id1 = False, element1 = False, pseudoElement1 = False,
       order = [3]\<rparr> \<and>
    invoke (Class ''y'')
      \<lparr>test = ''[x]'', id1 = False, element1 = False, pseudoElement1 = False,
       order = [3]\<rparr> =
    Threw (Error ''Selector parts should be arranged in the following order: element, id, class, attribute, pseudo-class, pseudo-element'')
      \<lparr>test = ''[x].y'', id1 = False, element1 = False, pseudoElement1 = False,
       order = [3, 2]\<rparr>) \<and>
   (already_added (Element ''c'')
      \<lparr>test = ''a#b'', id1 = True, element1 = True, pseudoElement1 = False,
       order = [0, 1]\<rparr> \<and>
    invoke (Element ''c'')
      \<lparr>test = ''a#b'', id1 = True, element1 = True, pseudoElement1 = False,
       order = [0, 1]\<rparr> =
    Threw duplicateError
      \<lparr>test = ''a#b'', id1 = True, element1 = True, pseudoElement1 = False,
       order = [0, 1]\<rparr>) \<and>
   (sorted (order \<lparr>test = ''#m'', id1 = True, element1 = False, pseudoElement1 = False,
                   order = [1]\<rparr>) \<and>
    last (order \<lparr>test = ''#m'', id1 = True, element1 = False, pseudoElement1 = False,
                 order = [1]\<rparr>) \<le> rank (Class ''y'') \<and>
    (\<forall>s'. invoke (Class ''y'')
             \<lparr>test = ''#m'', id1 = True, element1 = False, pseudoElement1 = False,
              order = [1]\<rparr> \<noteq>
           Threw (Error ''Selector parts should be arranged in the following order: element, id, class, attribute, pseudo-class, pseudo-element'') s'))"
  using
    order_error_on_lower_rank
      [of "\<lparr>test = ''[x]'', id1 = False, element1 = False, pseudoElement1 = False,
            order = [3]\<rparr>" "Class ''y''"]
    order_error_on_lower_rank
      [of "\<lparr>test = ''a#b'', id1 = True, element1 = True, pseudoElement1 = False,
            order = [0, 1]\<rparr>" "Element ''c''"]
    order_error_on_lower_rank
      [of "\<lparr>test = ''#m'', id1 = True, element1 = False, pseudoElement1 = False,
            order = [1]\<rparr>" "Class ''y''"]
  by simp

text \<open>
  C3, as the claim has it, fails: after \<open>element('a').id('b')\<close> the last
  recorded rank is 1, and \<open>element('c')\<close>, of rank 0, throws the duplicate
  error, which is not the out-of-order error. And on the builder that
  \<open>attr('x')\<close> and a failed \<open>class('y')\<close> leave behind, whose last recorded
  rank is 2, \<open>class('z')\<close>, of rank 2, throws the out-of-order error.
\<close>

theorem order_error_counterexample:
  "chain [Element ''a'', Id ''b''] (Check_constructor None) =
     Returned () \<lparr>test = ''a#b'', id1 = True, element1 = True, pseudoElement1 = False,
                  order = [0, 1]\<rparr> \<and>
   rank (Element ''c'') <
     last (order \<lparr>test = ''a#b'', id1 = True, element1 = True, pseudoElement1 = False,
                  order = [0, 1]\<rparr>) \<and>
   invoke (Element ''c'')
     \<lparr>test = ''a#b'', id1 = True, element1 = True, pseudoElement1 = False,
      order = [0, 1]\<rparr> =
   Threw duplicateError
     \<lparr>test = ''a#b'', id1 = True, element1 = True, pseudoElement1 = False,
      order = [0, 1]\<rparr> \<and>
   duplicateError \<noteq> Error ''Selector parts should be arranged in the following order: element, id, class, attribute, pseudo-class, pseudo-element'' \<and>
   perform [Attr ''x'', Class ''y''] (Check_constructor None) =
     \<lparr>test = ''[x].y'', id1 = False, element1 = False, pseudoElement1 = False,
      order = [3, 2]\<rparr> \<and>
   last (order \<lparr>test = ''[x].y'', id1 = False, element1 = False, pseudoElement1 = False,
                order = [3, 2]\<rparr>) \<le> rank (Class ''z'') \<and>
   invoke (Class ''z'')
     \<lparr>test = ''[x].y'', id1 = False, element1 = False, pseudoElement1 = False,
      order = [3, 2]\<rparr> =
   Threw (Error ''Selector parts should be arranged in the following order: element, id, class, attribute, pseudo-class, pseudo-element'')
     \<lparr>test = ''[x].y.z'', id1 = False, element1 = False, pseudoElement1 = False,
      order = [3, 2, 2]\<rparr>"
  by (simp add: Check_element_def Check_id_def Check_class_def Check_attr_def
      Check_constructor_def return_this_def checkOrder_def js_gt_def js_index_def
      duplicateError_def orderError_def)

lemma order_grows: "\<exists>xs. order (after (invoke c s)) = order s @ xs"
  by (simp add: invoke_eq order_appended)

lemma unsorted_stays:
  "\<not> sorted (order s) \<Longrightarrow> \<not> sorted (order (perform cs s))"
proof (induction cs arbitrary: s)
  case Nil
  then show ?case by simp
next
  case (Cons c cs)
  obtain xs where "order (after (invoke c s)) = order s @ xs"
    using order_grows by blast
  then have "\<not> sorted (order (after (invoke c s)))"
    using Cons.prems by (simp add: sorted_append)
  then show ?case using Cons.IH by simp
qed

lemma sorted_iff_no_order_error:
  "sorted (order s) \<Longrightarrow>
     sorted (order (perform cs s)) \<longleftrightarrow> \<not> list_ex raised_order_error (history cs s)"
proof (induction cs arbitrary: s)
  case Nil
  then show ?case by simp
next
  case (Cons c cs)
  consider (dup) "already_added c s"
    | (ok) "\<not> already_added c s" "sorted (order (appended c s))"
    | (bad) "\<not> already_added c s" "\<not> sorted (order (appended c s))"
    by blast
  then show ?case
  proof cases
    case dup
    then have "invoke c s = Threw duplicateError s" by (simp add: invoke_eq)
    then show ?thesis
      using Cons.IH[OF Cons.prems] duplicate_neq_order by simp
  next
    case ok
    then have "invoke c s = Returned () (appended c s)" by (simp add: invoke_eq)
    then show ?thesis
      using Cons.IH[OF ok(2)] by simp
  next
    case bad
    then have "invoke c s = Threw orderError (appended c s)" by (simp add: invoke_eq)
    then show ?thesis
      using unsorted_stays[OF bad(2), of cs] by simp
  qed
qed

text \<open>
  C7: for a builder made by the constructor and any sequence of fragment
  calls on it, the recorded ranks are non-decreasing at the end if and only
  if no call threw the out-of-order error; and whenever a fragment call
  returns, on any builder, the recorded ranks are non-decreasing.
\<close>

theorem order_sorted_iff_never_raised:
  "(sorted (order (perform cs (Check_constructor val))) \<longleftrightarrow>
      \<not> list_ex raised_order_error (history cs (Check_constructor val))) \<and>
   (invoke c s = Returned () s' \<longrightarrow> sorted (order s'))"
proof -
  have "sorted (order (Check_constructor val))"
    by (simp add: Check_constructor_def)
  then have "sorted (order (perform cs (Check_constructor val))) \<longleftrightarrow>
      \<not> list_ex raised_order_error (history cs (Check_constructor val))"
    by (rule sorted_iff_no_order_error)
  moreover have "invoke c s = Returned () s' \<longrightarrow> sorted (order s')"
    by (auto simp: invoke_eq split: if_splits)
  ultimately show ?thesis by blast
qed

theorem order_sorted_iff_never_raised_witness:
  "sorted (order (perform [Element ''a'', Class ''b''] (Check_constructor None))) \<and>
   \<not> list_ex raised_order_error
       (history [Element ''a'', Class ''b''] (Check_constructor None)) \<and>
   invoke (Class ''b'')
     \<lparr>test = ''a'', id1 = False, element1 = True, pseudoElement1 = False, order = [0]\<rparr> =
   Returned ()
     \<lparr>test = ''a.b'', id1 = False, element1 = True, pseudoElement1 = False,
      order = [0, 2]\<rparr> \<and>
   sorted (order \<lparr>test = ''a.b'', id1 = False, element1 = True, pseudoElement1 = False,
                  order = [0, 2]\<rparr>)"
proof -
  have i: "invoke (Class ''b'')
     \<lparr>test = ''a'', id1 = False, element1 = True, pseudoElement1 = False, order = [0]\<rparr> =
   Returned ()
     \<lparr>test = ''a.b'', id1 = False, element1 = True, pseudoElement1 = False,
      order = [0, 2]\<rparr>"
    by (simp add: Check_class_def return_this_def checkOrder_def js_gt_def js_index_def)
  have p: "perform [Element ''a'', Class ''b''] (Check_constructor None) =
     \<lparr>test = ''a.b'', id1 = False, element1 = True, pseudoElement1 = False,
      order = [0, 2]\<rparr>"
    by (simp add: Check_element_def Check_class_def Check_constructor_def return_this_def
        checkOrder_def js_gt_def js_index_def)
  show ?thesis
    using i p
      order_sorted_iff_never_raised
        [of "[Element ''a'', Class ''b'']" None "Class ''b''"
            "\<lparr>test = ''a'', id1 = False, element1 = True, pseudoElement1 = False,
              order = [0]\<rparr>"
            "\<lparr>test = ''a.b'', id1 = False, element1 = True, pseudoElement1 = False,
              order = [0, 2]\<rparr>"]
    by simp
qed

text \<open>
  C9: when a fragment call throws the out-of-order error, its text is
  already appended to the rendered string and its rank is already pushed
  onto the recorded ranks, so that \<open>stringify\<close> on the builder afterwards
  returns a string that ends with the offending fragment.
\<close>

theorem order_error_after_append:
  "invoke c s = Threw orderError s' \<Longrightarrow>
     test s' = test s @ rendered c \<and> order s' = order s @ [rank c] \<and>
     stringify s' = Returned (test s @ rendered c) s'"
  using duplicate_neq_order
  by (auto simp: invoke_eq order_appended test_appended stringify_def split: if_splits)

theorem order_error_after_append_witness:
  "invoke (Class ''y'')
     \<lparr>test = ''[x]'', id1 = False, element1 = False, pseudoElement1 = False,
      order = [3]\<rparr> =
   Threw orderError
     \<lparr>test = ''[x].y'', id1 = False, element1 = False, pseudoElement1 = False,
      order = [3, 2]\<rparr> \<and>
   stringify
     \<lparr>test = ''[x].y'', id1 = False, element1 = False, pseudoElement1 = False,
      order = [3, 2]\<rparr> =
   Returned ''[x].y''
     \<lparr>test = ''[x].y'', id1 = False, element1 = False, pseudoElement1 = False,
      order = [3, 2]\<rparr>"
proof -
  have i: "invoke (Class ''y'')
     \<lparr>test = ''[x]'', id1 = False, element1 = False, pseudoElement1 = False,
      order = [3]\<rparr> =
   Threw orderError
     \<lparr>test = ''[x].y'', id1 = False, element1 = False, pseudoElement1 = False,
      order = [3, 2]\<rparr>"
    by (simp add: Check_class_def return_this_def checkOrder_def js_gt_def js_index_def)
  show ?thesis
    using i order_error_after_append[OF i] by simp
qed

subsection \<open>stringify and combine\<close>

lemma stringify_times_eq:
  "stringify_times n s = replicate n (Returned (test s) s)"
  by (induction n) (simp_all add: stringify_def)

text \<open>
  C8: in every state of a builder, \<open>stringify\<close> returns the rendered
  string, does not throw and leaves every field as it was; any number of
  calls in a row return the same string and leave the same state.
\<close>

theorem stringify_pure:
  "stringify s = Returned (test s) s \<and> after (stringify s) = s \<and>
   stringify_times n s = replicate n (stringify s)"
  by (simp add: stringify_times_eq) (simp add: stringify_def)

text \<open>
  C5: for any two builders and any combinator text, \<open>combine\<close> does not
  throw; it returns a new builder whose \<open>stringify\<close> returns what
  \<open>stringify\<close> returns on the first, a space, the combinator, a space, and
  what \<open>stringify\<close> returns on the second.
\<close>

theorem combine_stringify:
  "\<exists>a b t. stringify selector1 = Returned a selector1 \<and>
           stringify selector2 = Returned b selector2 \<and>
           cssSelectorBuilder_combine selector1 combinator selector2 = Inr t \<and>
           stringify t = Returned (a @ '' '' @ combinator @ '' '' @ b) t"
  by (simp add: cssSelectorBuilder_combine_def stringify_def Check_constructor_def)

text \<open>
  C6: nesting \<open>combine\<close> concatenates the texts with the combinator between
  single spaces at each level, so that a combinator that is itself a space
  leaves three spaces between the third and the fourth selector.
\<close>

theorem combine_nested_stringify:
  "\<exists>a b c d. stringify A = Returned a A \<and> stringify B = Returned b B \<and>
             stringify C = Returned c C \<and> stringify D = Returned d D \<and>
             combine_nested A B C D =
               Inr (a @ '' + '' @ b @ '' ~ '' @ c @ ''   '' @ d)"
  by (simp add: combine_nested_def cssSelectorBuilder_combine_def stringify_def
      Check_constructor_def)

lemma invoke_prefix:
  "invoke c (s\<lparr>test := t @ test s\<rparr>) =
     (case invoke c s of
        Returned u s' \<Rightarrow> Returned u (s'\<lparr>test := t @ test s'\<rparr>)
      | Threw e s' \<Rightarrow> Threw e (s'\<lparr>test := t @ test s'\<rparr>))"
  by (cases c) (simp_all add: invoke_eq)

lemma chain_prefix:
  "chain cs (s\<lparr>test := t @ test s\<rparr>) =
     (case chain cs s of
        Returned u s' \<Rightarrow> Returned u (s'\<lparr>test := t @ test s'\<rparr>)
      | Threw e s' \<Rightarrow> Threw e (s'\<lparr>test := t @ test s'\<rparr>))"
  by (induction cs arbitrary: s) (simp_all add: invoke_prefix split: outcome.splits)

text \<open>
  C10: the builder that \<open>combine\<close> returns holds the composite text, the
  first selector's string, a space, the combinator, a space and the second
  selector's string, and has its three flags false and no recorded rank.
  Any fragment call on it returns, and \<open>stringify\<close> then returns the
  composite text with the fragment directly after it; a chain of calls on
  it has the outcome it has on a new builder, with the composite text in
  front of the rendered string.
\<close>

theorem combined_builder_is_fresh:
  "\<exists>t. cssSelectorBuilder_combine selector1 combinator selector2 = Inr t \<and>
       test t = test selector1 @ '' '' @ combinator @ '' '' @ test selector2 \<and>
       \<not> id1 t \<and> \<not> element1 t \<and> \<not> pseudoElement1 t \<and> order t = [] \<and>
       invoke c t = Returned () (appended c t) \<and>
       stringify (appended c t) = Returned (test t @ rendered c) (appended c t) \<and>
       stringify (appended c t) =
         Returned (test selector1 @ '' '' @ combinator @ '' '' @ test selector2 @ rendered c)
           (appended c t) \<and>
       chain cs t =
         (case chain cs (Check_constructor None) of
            Returned u s' \<Rightarrow> Returned u (s'\<lparr>test := test t @ test s'\<rparr>)
          | Threw e s' \<Rightarrow> Threw e (s'\<lparr>test := test t @ test s'\<rparr>))"
proof -
  let ?t = "Check_constructor
    (Some (test selector1 @ '' '' @ combinator @ '' '' @ test selector2))"
  have c: "cssSelectorBuilder_combine selector1 combinator selector2 = Inr ?t"
    by (simp add: cssSelectorBuilder_combine_def stringify_def)
  have f: "\<not> id1 ?t \<and> \<not> element1 ?t \<and> \<not> pseudoElement1 ?t \<and> order ?t = []"
    by (simp add: Check_constructor_def)
  have "sorted (order (appended c ?t))"
    using f by (simp add: order_appended)
  then have i: "invoke c ?t = Returned () (appended c ?t)"
    by (simp add: invoke_eq already_added_constructor)
  have s: "stringify (appended c ?t) = Returned (test ?t @ rendered c) (appended c ?t)"
    by (simp add: stringify_def test_appended)
  have tt: "test ?t = test selector1 @ '' '' @ combinator @ '' '' @ test selector2"
    by (simp add: Check_constructor_def)
  have s': "stringify (appended c ?t) =
      Returned (test selector1 @ '' '' @ combinator @ '' '' @ test selector2 @ rendered c)
        (appended c ?t)"
    using s by (simp only: tt append_assoc)
  have "?t = (Check_constructor None)\<lparr>test := test ?t @ test (Check_constructor None)\<rparr>"
    by (simp add: Check_constructor_def)
  then have "chain cs ?t =
      chain cs ((Check_constructor None)\<lparr>test := test ?t @ test (Check_constructor None)\<rparr>)"
    by simp
  then have ch: "chain cs ?t =
         (case chain cs (Check_constructor None) of
            Returned u s' \<Rightarrow> Returned u (s'\<lparr>test := test ?t @ test s'\<rparr>)
          | Threw e s' \<Rightarrow> Threw e (s'\<lparr>test := test ?t @ test s'\<rparr>))"
    by (simp only: chain_prefix)
  show ?thesis
    using c tt f i s s' ch by blast
qed

end
